theory Spec2Isabelle
  imports Complex_Main
begin

section \<open>Calendar dates as featureTracker.py uses them\<close>

text \<open>
  The script works on \<^verbatim>\<open>datetime.date\<close> values. A date is a triple of year, month and
  day; the constructor \<^verbatim>\<open>date(y, m, d)\<close> raises \<^verbatim>\<open>ValueError\<close> outside
  \<^verbatim>\<open>1 <= y <= 9999\<close>, \<^verbatim>\<open>1 <= m <= 12\<close>, \<^verbatim>\<open>1 <= d <= days_in_month\<close>, and
  date arithmetic with a \<^verbatim>\<open>timedelta\<close> raises \<^verbatim>\<open>OverflowError\<close> when the result
  leaves \<^verbatim>\<open>0001-01-01 .. 9999-12-31\<close>. Every raise and every \<^verbatim>\<open>sys.exit(1)\<close> of
  the script is a value of the type \<open>error\<close>.
\<close>

datatype error = ValueError | OverflowError | InputError | AlignmentError | MetricsQueryError

record date =
  year :: nat
  month :: nat
  day :: nat

definition is_leap :: "nat \<Rightarrow> bool" where
  "is_leap y = (y mod 4 = 0 \<and> (y mod 100 \<noteq> 0 \<or> y mod 400 = 0))"

definition days_in_month :: "nat \<Rightarrow> nat \<Rightarrow> nat" where
  "days_in_month y m =
     (if m = 2 then (if is_leap y then 29 else 28)
      else if m = 4 \<or> m = 6 \<or> m = 9 \<or> m = 11 then 30 else 31)"

definition MAXYEAR :: nat where
  "MAXYEAR = 9999"

definition valid_date :: "date \<Rightarrow> bool" where
  "valid_date d =
     (1 \<le> year d \<and> year d \<le> MAXYEAR \<and> 1 \<le> month d \<and> month d \<le> 12 \<and>
      1 \<le> day d \<and> day d \<le> days_in_month (year d) (month d))"

text \<open>The constructor \<^verbatim>\<open>date(y, m, d)\<close>.\<close>

definition mk_date :: "nat \<Rightarrow> nat \<Rightarrow> nat \<Rightarrow> error + date" where
  "mk_date y m d =
     (if 1 \<le> y \<and> y \<le> MAXYEAR \<and> 1 \<le> m \<and> m \<le> 12 \<and> 1 \<le> d \<and> d \<le> days_in_month y m
      then Inr \<lparr>year = y, month = m, day = d\<rparr>
      else Inl ValueError)"

text \<open>Comparison of dates is the comparison of the triples (year, month, day).\<close>

definition date_less :: "date \<Rightarrow> date \<Rightarrow> bool" where
  "date_less a b =
     (year a < year b \<or>
      (year a = year b \<and> (month a < month b \<or> (month a = month b \<and> day a < day b))))"

definition date_le :: "date \<Rightarrow> date \<Rightarrow> bool" where
  "date_le a b = (date_less a b \<or> a = b)"

text \<open>\<^verbatim>\<open>d + timedelta(days=1)\<close> and \<^verbatim>\<open>d - timedelta(days=1)\<close>.\<close>

definition next_day :: "date \<Rightarrow> error + date" where
  "next_day d =
     (if day d < days_in_month (year d) (month d) then Inr (d\<lparr>day := day d + 1\<rparr>)
      else if month d < 12 then Inr \<lparr>year = year d, month = month d + 1, day = 1\<rparr>
      else if year d < MAXYEAR then Inr \<lparr>year = year d + 1, month = 1, day = 1\<rparr>
      else Inl OverflowError)"

definition prev_day :: "date \<Rightarrow> error + date" where
  "prev_day d =
     (if 1 < day d then Inr (d\<lparr>day := day d - 1\<rparr>)
      else if 1 < month d
        then Inr \<lparr>year = year d, month = month d - 1,
                  day = days_in_month (year d) (month d - 1)\<rparr>
      else if 1 < year d then Inr \<lparr>year = year d - 1, month = 12, day = 31\<rparr>
      else Inl OverflowError)"

text \<open>\<^verbatim>\<open>d + timedelta(days=n)\<close> for \<open>n \<ge> 0\<close>: \<open>n\<close> single days, failing as soon as one fails.\<close>

fun add_days :: "nat \<Rightarrow> date \<Rightarrow> error + date" where
  "add_days 0 d = Inr d"
| "add_days (Suc n) d = (case next_day d of Inl e \<Rightarrow> Inl e | Inr d' \<Rightarrow> add_days n d')"

text \<open>
  \<^verbatim>\<open>d.toordinal()\<close> (days since 0001-01-01, that day being 1) and \<^verbatim>\<open>d.weekday()\<close>
  (Monday is 0, Saturday is 5, Sunday is 6).
\<close>

definition days_before_year :: "nat \<Rightarrow> nat" where
  "days_before_year y = (y - 1) * 365 + (y - 1) div 4 - (y - 1) div 100 + (y - 1) div 400"

definition days_before_month :: "nat \<Rightarrow> nat \<Rightarrow> nat" where
  "days_before_month y m = sum_list (map (days_in_month y) [1..<m])"

definition toordinal :: "date \<Rightarrow> nat" where
  "toordinal d = days_before_year (year d) + days_before_month (year d) (month d) + day d"

definition weekday :: "date \<Rightarrow> nat" where
  "weekday d = (toordinal d + 6) mod 7"

section \<open>CalendarMath: add_one_month\<close>

text \<open>
  \<^verbatim>\<open>
  def add_one_month(d):
      year, month = d.year, d.month
      if month == 12:
          year += 1
          month = 1
      else:
          month += 1
      day = min(d.day, (date(year, month+1, 1) - timedelta(days=1)).day)
      return date(year, month, day)
  \<close>
\<close>

definition add_one_month :: "date \<Rightarrow> error + date" where
  "add_one_month d =
     (let (y, m) = (if month d = 12 then (year d + 1, 1) else (year d, month d + 1)) in
      case mk_date y (m + 1) 1 of
        Inl e \<Rightarrow> Inl e
      | Inr first \<Rightarrow>
          (case prev_day first of
             Inl e \<Rightarrow> Inl e
           | Inr last_of_month \<Rightarrow> mk_date y m (min (day d) (day last_of_month))))"

section \<open>AlignmentValidator: validate_interval_alignment\<close>

datatype granularity = Day | Week | Month

text \<open>
  The loop \<^verbatim>\<open>while current < end_date: current = add_one_month(current)\<close>; it returns
  the value of \<^verbatim>\<open>current\<close> on exit, or the error \<^verbatim>\<open>add_one_month\<close> raised.
\<close>

function validate_month_loop :: "date \<Rightarrow> date \<Rightarrow> error + date" where
  "validate_month_loop current end_date =
     (if date_less current end_date
      then (case add_one_month current of
              Inl e \<Rightarrow> Inl e
            | Inr nxt \<Rightarrow> validate_month_loop nxt end_date)
      else Inr current)"
  by pat_completeness auto

definition month_index :: "date \<Rightarrow> nat" where
  "month_index d = 12 * MAXYEAR + 13 - (12 * year d + month d)"

termination validate_month_loop
  by (relation "measure (\<lambda>(c, e). month_index c)")
     (auto simp: add_one_month_def mk_date_def prev_day_def month_index_def MAXYEAR_def
           split: if_splits sum.splits)

text \<open>
  \<^verbatim>\<open>
  def validate_interval_alignment(interval, start_date, end_date):
      if interval == "week":
          if start_date.weekday() != 6 or end_date.weekday() != 5:
              print(...); sys.exit(1)
      elif interval == "month":
          current = start_date
          while current < end_date:
              current = add_one_month(current)
          if current != end_date + timedelta(days=1):
              print(...); sys.exit(1)
  \<close>
  The \<^verbatim>\<open>sys.exit(1)\<close> of this function is the error \<open>AlignmentError\<close>.
\<close>

definition validate_interval_alignment :: "granularity \<Rightarrow> date \<Rightarrow> date \<Rightarrow> error + unit" where
  "validate_interval_alignment interval start_date end_date =
     (case interval of
        Week \<Rightarrow>
          if weekday start_date \<noteq> 6 \<or> weekday end_date \<noteq> 5 then Inl AlignmentError
          else Inr ()
      | Month \<Rightarrow>
          (case validate_month_loop start_date end_date of
             Inl e \<Rightarrow> Inl e
           | Inr current \<Rightarrow>
               (case next_day end_date of
                  Inl e \<Rightarrow> Inl e
                | Inr day_after \<Rightarrow>
                    if current \<noteq> day_after then Inl AlignmentError else Inr ()))
      | Day \<Rightarrow> Inr ())"

section \<open>IntervalPartitioner: the two interval-building blocks\<close>

text \<open>
  Section 3 of the script builds the list \<^verbatim>\<open>intervals\<close> with one \<^verbatim>\<open>while\<close> loop per
  granularity; each loop carries \<^verbatim>\<open>current\<close> and the list built so far:
  \<^verbatim>\<open>
  intervals = []
  current = start_date
  if interval == "day":
      while current <= end_date:
          intervals.append((current, current))
          current += timedelta(days=1)
  elif interval == "week":
      while current <= end_date:
          interval_end = current + timedelta(days=6)
          intervals.append((current, interval_end))
          current += timedelta(days=7)
  elif interval == "month":
      while current <= end_date:
          next_month = add_one_month(current)
          interval_end = next_month - timedelta(days=1)
          intervals.append((current, interval_end))
          current = next_month
  \<close>
\<close>

type_synonym interval = "date \<times> date"

definition day_index :: "date \<Rightarrow> nat" where
  "day_index d = 384 * (MAXYEAR - year d) + 32 * (12 - month d) + (31 - day d)"

function day_loop3 :: "date \<Rightarrow> date \<Rightarrow> interval list \<Rightarrow> error + interval list" where
  "day_loop3 current end_date intervals =
     (if date_le current end_date
      then (case next_day current of
              Inl e \<Rightarrow> Inl e
            | Inr nxt \<Rightarrow> day_loop3 nxt end_date (intervals @ [(current, current)]))
      else Inr intervals)"
  by pat_completeness auto
termination
  by (relation "measure (\<lambda>(c, e, a). day_index c)")
     (auto simp: next_day_def day_index_def days_in_month_def MAXYEAR_def split: if_splits)

function week_loop3 :: "date \<Rightarrow> date \<Rightarrow> interval list \<Rightarrow> error + interval list" where
  "week_loop3 current end_date intervals =
     (if date_le current end_date
      then (case add_days 6 current of
              Inl e \<Rightarrow> Inl e
            | Inr interval_end \<Rightarrow>
                (case add_days 7 current of
                   Inl e \<Rightarrow> Inl e
                 | Inr nxt \<Rightarrow> week_loop3 nxt end_date (intervals @ [(current, interval_end)])))
      else Inr intervals)"
  by pat_completeness auto


lemma next_day_index: "next_day d = Inr d' \<Longrightarrow> day_index d' < day_index d"
  by (auto simp: next_day_def day_index_def days_in_month_def MAXYEAR_def split: if_splits)

lemma add_days_index: "add_days (Suc n) d = Inr d' \<Longrightarrow> day_index d' < day_index d"
proof (induction n arbitrary: d)
  case 0
  then show ?case by (auto split: sum.splits dest: next_day_index)
next
  case (Suc n)
  from Suc.prems obtain d1 where d1: "next_day d = Inr d1" and rest: "add_days (Suc n) d1 = Inr d'"
    by (auto split: sum.splits)
  from Suc.IH [OF rest] next_day_index [OF d1] show ?case by simp
qed

termination week_loop3
  by (relation "measure (\<lambda>(c, e, a). day_index c)")
     (auto simp: numeral_eq_Suc simp del: add_days.simps dest: add_days_index)

function month_loop3 :: "date \<Rightarrow> date \<Rightarrow> interval list \<Rightarrow> error + interval list" where
  "month_loop3 current end_date intervals =
     (if date_le current end_date
      then (case add_one_month current of
              Inl e \<Rightarrow> Inl e
            | Inr next_month \<Rightarrow>
                (case prev_day next_month of
                   Inl e \<Rightarrow> Inl e
                 | Inr interval_end \<Rightarrow>
                     month_loop3 next_month end_date (intervals @ [(current, interval_end)])))
      else Inr intervals)"
  by pat_completeness auto
termination
  by (relation "measure (\<lambda>(c, e, a). month_index c)")
     (auto simp: add_one_month_def mk_date_def prev_day_def month_index_def MAXYEAR_def
           split: if_splits sum.splits)

definition intervals_section3 :: "granularity \<Rightarrow> date \<Rightarrow> date \<Rightarrow> error + interval list" where
  "intervals_section3 interval start_date end_date =
     (case interval of
        Day \<Rightarrow> day_loop3 start_date end_date []
      | Week \<Rightarrow> week_loop3 start_date end_date []
      | Month \<Rightarrow> month_loop3 start_date end_date [])"

text \<open>
  Section 6 builds \<^verbatim>\<open>intervals\<close> again, from \<^verbatim>\<open>start_date\<close> and \<^verbatim>\<open>end_date\<close>, with its
  own three loops (lines 247 to 263 of the script).
\<close>

function day_loop6 :: "date \<Rightarrow> date \<Rightarrow> interval list \<Rightarrow> error + interval list" where
  "day_loop6 current end_date intervals =
     (if date_le current end_date
      then (case next_day current of
              Inl e \<Rightarrow> Inl e
            | Inr nxt \<Rightarrow> day_loop6 nxt end_date (intervals @ [(current, current)]))
      else Inr intervals)"
  by pat_completeness auto
termination
  by (relation "measure (\<lambda>(c, e, a). day_index c)") (auto dest: next_day_index)

function week_loop6 :: "date \<Rightarrow> date \<Rightarrow> interval list \<Rightarrow> error + interval list" where
  "week_loop6 current end_date intervals =
     (if date_le current end_date
      then (case add_days 6 current of
              Inl e \<Rightarrow> Inl e
            | Inr interval_end \<Rightarrow>
                (case add_days 7 current of
                   Inl e \<Rightarrow> Inl e
                 | Inr nxt \<Rightarrow> week_loop6 nxt end_date (intervals @ [(current, interval_end)])))
      else Inr intervals)"
  by pat_completeness auto
termination
  by (relation "measure (\<lambda>(c, e, a). day_index c)")
     (auto simp: numeral_eq_Suc simp del: add_days.simps dest: add_days_index)

function month_loop6 :: "date \<Rightarrow> date \<Rightarrow> interval list \<Rightarrow> error + interval list" where
  "month_loop6 current end_date intervals =
     (if date_le current end_date
      then (case add_one_month current of
              Inl e \<Rightarrow> Inl e
            | Inr next_month \<Rightarrow>
                (case prev_day next_month of
                   Inl e \<Rightarrow> Inl e
                 | Inr interval_end \<Rightarrow>
                     month_loop6 next_month end_date (intervals @ [(current, interval_end)])))
      else Inr intervals)"
  by pat_completeness auto
termination
  by (relation "measure (\<lambda>(c, e, a). month_index c)")
     (auto simp: add_one_month_def mk_date_def prev_day_def month_index_def MAXYEAR_def
           split: if_splits sum.splits)

definition intervals_section6 :: "granularity \<Rightarrow> date \<Rightarrow> date \<Rightarrow> error + interval list" where
  "intervals_section6 interval start_date end_date =
     (case interval of
        Day \<Rightarrow> day_loop6 start_date end_date []
      | Week \<Rightarrow> week_loop6 start_date end_date []
      | Month \<Rightarrow> month_loop6 start_date end_date [])"

text \<open>
  An interval list tiles the range from \<open>s\<close> to \<open>e\<close> when it is not empty, its first
  interval starts at \<open>s\<close>, its last interval ends at \<open>e\<close>, no interval ends before it
  starts, and each next interval starts on the day after the one before it ends.
\<close>

fun tiles :: "date \<Rightarrow> date \<Rightarrow> interval list \<Rightarrow> bool" where
  "tiles s e [] = False"
| "tiles s e [(a, b)] = (a = s \<and> b = e \<and> date_le a b)"
| "tiles s e ((a, b) # iv # ivs) =
     (a = s \<and> date_le a b \<and>
      (case next_day b of Inl _ \<Rightarrow> False | Inr n \<Rightarrow> tiles n e (iv # ivs)))"

section \<open>MetricsClient: the answers of the analytics backend\<close>

text \<open>
  A breakdown query answers with the list \<^verbatim>\<open>data.get("results", [])\<close> of entries; the
  script reads five keys of an entry with \<^verbatim>\<open>item.get(...)\<close>, each of which may be absent.
  An aggregate query answers with
  \<^verbatim>\<open>data.get("results", {}).get("visitors", {}).get("value", 0)\<close>: a number, or nothing,
  which the script reads as 0. \<^verbatim>\<open>get_json\<close> ends the run with \<^verbatim>\<open>sys.exit(1)\<close> on any
  status other than 200: the error \<open>MetricsQueryError\<close>.
\<close>

record item =
  goal_key :: "string option"
  event_goal_key :: "string option"
  name_key :: "string option"
  visitors_key :: "int option"
  events_key :: "int option"

datatype metric = Visitors | Events

datatype filter = NoFilter | PageFilter string | GoalPageFilter string string

record client =
  breakdown :: "interval \<Rightarrow> metric list \<Rightarrow> filter \<Rightarrow> error + item list"
  aggregate :: "interval \<Rightarrow> filter \<Rightarrow> error + int option"

text \<open>Python's \<^verbatim>\<open>a or b\<close> on values that are a string or \<^verbatim>\<open>None\<close>.\<close>

definition py_or :: "string option \<Rightarrow> string option \<Rightarrow> string option" where
  "py_or a b = (case a of None \<Rightarrow> b | Some s \<Rightarrow> if s = [] then b else a)"

text \<open>\<^verbatim>\<open>item.get("goal") or item.get("event:goal") or item.get("name")\<close>\<close>

definition item_goal :: "item \<Rightarrow> string option" where
  "item_goal it = py_or (py_or (goal_key it) (event_goal_key it)) (name_key it)"

text \<open>\<^verbatim>\<open>goal in goals\<close>, for a goal that may be \<^verbatim>\<open>None\<close>, in a list of strings.\<close>

definition goal_in :: "string option \<Rightarrow> string list \<Rightarrow> bool" where
  "goal_in g goals = (case g of None \<Rightarrow> False | Some s \<Rightarrow> s \<in> set goals)"

text \<open>\<^verbatim>\<open>item.get(key, 0)\<close> and \<^verbatim>\<open>....get("value", 0)\<close>.\<close>

definition get0 :: "int option \<Rightarrow> int" where
  "get0 v = (case v of None \<Rightarrow> 0 | Some n \<Rightarrow> n)"

text \<open>\<^verbatim>\<open>d[k] = v\<close> on a dict, which keeps the keys in the order of their first insertion.\<close>

fun dict_set :: "('k \<times> 'v) list \<Rightarrow> 'k \<Rightarrow> 'v \<Rightarrow> ('k \<times> 'v) list" where
  "dict_set [] k v = [(k, v)]"
| "dict_set ((k', v') # kvs) k v =
     (if k' = k then (k, v) # kvs else (k', v') # dict_set kvs k v)"

section \<open>AggregationEngine: the loops of the six sections\<close>

text \<open>
  Section 1, lines 100 to 108: the loop carries \<^verbatim>\<open>total_goal_visitors\<close> and
  \<^verbatim>\<open>goal_visitor_map\<close>.
  \<^verbatim>\<open>
  for item in data.get("results", []):
      goal = item.get("goal") or item.get("event:goal") or item.get("name")
      if goal in goals:
          count = item.get("visitors", 0)
          goal_visitor_map[goal] = count
          total_goal_visitors += count
  \<close>
\<close>

fun goal_visitors_loop ::
  "string list \<Rightarrow> item list \<Rightarrow> int \<times> (string \<times> int) list \<Rightarrow> int \<times> (string \<times> int) list" where
  "goal_visitors_loop goals [] acc = acc"
| "goal_visitors_loop goals (it # items) (total_goal_visitors, goal_visitor_map) =
     (case item_goal it of
        None \<Rightarrow> goal_visitors_loop goals items (total_goal_visitors, goal_visitor_map)
      | Some goal \<Rightarrow>
          if goal \<in> set goals
          then (let count = get0 (visitors_key it) in
                goal_visitors_loop goals items
                  (total_goal_visitors + count, dict_set goal_visitor_map goal count))
          else goal_visitors_loop goals items (total_goal_visitors, goal_visitor_map))"

text \<open>
  Section 2, lines 134 to 138: \<^verbatim>\<open>total_events += item.get("events", 0)\<close> for the
  entries of a requested goal.
\<close>

fun events_loop :: "string list \<Rightarrow> item list \<Rightarrow> int \<Rightarrow> int" where
  "events_loop goals [] total_events = total_events"
| "events_loop goals (it # items) total_events =
     (if goal_in (item_goal it) goals
      then events_loop goals items (total_events + get0 (events_key it))
      else events_loop goals items total_events)"

text \<open>
  Section 3, lines 180 to 188, the body for one interval: the loop carries
  \<^verbatim>\<open>visitors\<close> and \<^verbatim>\<open>events\<close>, then \<^verbatim>\<open>visitors = min(visitors, total_goal_visitors)\<close>.
  The result is the pair the line \<^verbatim>\<open>f"{events} / {visitors}\t"\<close> prints.
\<close>

fun interval_loop :: "string list \<Rightarrow> item list \<Rightarrow> int \<times> int \<Rightarrow> int \<times> int" where
  "interval_loop goals [] acc = acc"
| "interval_loop goals (it # items) (visitors, events) =
     (if goal_in (item_goal it) goals
      then interval_loop goals items
             (visitors + get0 (visitors_key it), events + get0 (events_key it))
      else interval_loop goals items (visitors, events))"

definition interval_figures :: "string list \<Rightarrow> int \<Rightarrow> item list \<Rightarrow> int \<times> int" where
  "interval_figures goals total_goal_visitors data =
     (let (visitors, events) = interval_loop goals data (0, 0);
          visitors = min visitors total_goal_visitors
      in (events, visitors))"

fun section3_loop ::
  "client \<Rightarrow> string list \<Rightarrow> int \<Rightarrow> interval list \<Rightarrow> error + (int \<times> int) list" where
  "section3_loop c goals total_goal_visitors [] = Inr []"
| "section3_loop c goals total_goal_visitors ((start, end) # intervals) =
     (case breakdown c (start, end) [Visitors, Events] NoFilter of
        Inl e \<Rightarrow> Inl e
      | Inr data \<Rightarrow>
          (case section3_loop c goals total_goal_visitors intervals of
             Inl e \<Rightarrow> Inl e
           | Inr lines \<Rightarrow> Inr (interval_figures goals total_goal_visitors data # lines)))"

text \<open>
  Percentages and rates: \<^verbatim>\<open>(count / total * 100) if total > 0 else 0\<close>. Python divides
  in floating point; the model keeps the exact quotient, a rational number, and leaves the
  rounding of the binary representation and of the \<^verbatim>\<open>.2f\<close> format out.
\<close>

definition percent_of :: "int \<Rightarrow> int \<Rightarrow> rat" where
  "percent_of n denominator =
     (if denominator > 0 then of_int n / of_int denominator * 100 else 0)"

text \<open>
  Section 4, lines 202 to 206:
  \<^verbatim>\<open>sorted(goal_visitor_map.items(), key=lambda x: x[1], reverse=True)\<close>, a stable sort
  on the count, largest first, and one line (goal, count, percentage) per goal.
\<close>

definition sorted_goals :: "(string \<times> int) list \<Rightarrow> (string \<times> int) list" where
  "sorted_goals goal_visitor_map = sort_key (\<lambda>x. - snd x) goal_visitor_map"

definition section4 :: "(string \<times> int) list \<Rightarrow> int \<Rightarrow> (string \<times> int \<times> rat) list" where
  "section4 goal_visitor_map total_goal_visitors =
     map (\<lambda>(goal, count). (goal, count, percent_of count total_goal_visitors))
       (sorted_goals goal_visitor_map)"

text \<open>
  Section 5, lines 223 to 229: one aggregate query per goal, filtered on the goal and the
  page, summed in \<^verbatim>\<open>conversion_visitors\<close>.
\<close>

fun conversion_loop :: "client \<Rightarrow> interval \<Rightarrow> string \<Rightarrow> string list \<Rightarrow> int \<Rightarrow> error + int" where
  "conversion_loop c window page_path [] conversion_visitors = Inr conversion_visitors"
| "conversion_loop c window page_path (goal # goals) conversion_visitors =
     (case aggregate c window (GoalPageFilter goal page_path) of
        Inl e \<Rightarrow> Inl e
      | Inr goal_data \<Rightarrow>
          conversion_loop c window page_path goals (conversion_visitors + get0 goal_data))"

text \<open>
  Section 6, lines 266 to 287: for each interval the page-wide visitors, the page-filtered
  breakdown summed over the requested goals, the cap and the rate.
\<close>

fun visitors_loop :: "string list \<Rightarrow> item list \<Rightarrow> int \<Rightarrow> int" where
  "visitors_loop goals [] conversion_visitors = conversion_visitors"
| "visitors_loop goals (it # items) conversion_visitors =
     (if goal_in (item_goal it) goals
      then visitors_loop goals items (conversion_visitors + get0 (visitors_key it))
      else visitors_loop goals items conversion_visitors)"

definition interval_rate :: "string list \<Rightarrow> int \<Rightarrow> item list \<Rightarrow> rat" where
  "interval_rate goals home_visitors goal_page_data =
     (let conversion_visitors = visitors_loop goals goal_page_data 0;
          conversion_visitors = min conversion_visitors home_visitors
      in percent_of conversion_visitors home_visitors)"

fun section6_loop :: "client \<Rightarrow> string list \<Rightarrow> string \<Rightarrow> interval list \<Rightarrow> error + rat list" where
  "section6_loop c goals page_path [] = Inr []"
| "section6_loop c goals page_path ((start, end) # intervals) =
     (case aggregate c (start, end) (PageFilter page_path) of
        Inl e \<Rightarrow> Inl e
      | Inr home_data \<Rightarrow>
          (case breakdown c (start, end) [Visitors] (PageFilter page_path) of
             Inl e \<Rightarrow> Inl e
           | Inr goal_page_data \<Rightarrow>
               (case section6_loop c goals page_path intervals of
                  Inl e \<Rightarrow> Inl e
                | Inr rates \<Rightarrow>
                    Inr (interval_rate goals (get0 home_data) goal_page_data # rates))))"

section \<open>The report run\<close>

text \<open>
  The numbers the six sections print, in the order the script computes them; the first
  failing step ends the run with its error.
\<close>

record report =
  total_goal_visitors :: int
  total_events :: int
  section3_lines :: "(int \<times> int) list"
  section4_lines :: "(string \<times> int \<times> rat) list"
  conversion_visitors :: int
  conversion_rate :: rat
  section6_line :: "rat list"

definition bind_err :: "error + 'a \<Rightarrow> ('a \<Rightarrow> error + 'b) \<Rightarrow> error + 'b" where
  "bind_err m f = (case m of Inl e \<Rightarrow> Inl e | Inr x \<Rightarrow> f x)"

definition run_report ::
  "client \<Rightarrow> granularity \<Rightarrow> date \<Rightarrow> date \<Rightarrow> string \<Rightarrow> string list \<Rightarrow> error + report" where
  "run_report c interval start_date end_date page_path goals =
     (if date_less end_date start_date then Inl InputError
      else
      bind_err (validate_interval_alignment interval start_date end_date) (\<lambda>_.
      bind_err (breakdown c (start_date, end_date) [Visitors] NoFilter) (\<lambda>data.
      let (goal_sum, goal_visitor_map) = goal_visitors_loop goals data (0, []) in
      bind_err (aggregate c (start_date, end_date) NoFilter) (\<lambda>site_data.
      let site_total_visitors = get0 site_data;
          total_goal_visitors = min goal_sum site_total_visitors in
      bind_err (breakdown c (start_date, end_date) [Events] NoFilter) (\<lambda>events_data.
      let total_events = events_loop goals events_data 0 in
      bind_err (intervals_section3 interval start_date end_date) (\<lambda>intervals3.
      bind_err (section3_loop c goals total_goal_visitors intervals3) (\<lambda>lines3.
      let lines4 = section4 goal_visitor_map total_goal_visitors in
      bind_err (aggregate c (start_date, end_date) (PageFilter page_path)) (\<lambda>home_data.
      let home_visitors = get0 home_data in
      bind_err (conversion_loop c (start_date, end_date) page_path goals 0) (\<lambda>conversion_sum.
      let conversion_visitors = min conversion_sum home_visitors;
          conversion_rate = percent_of conversion_visitors home_visitors in
      bind_err (intervals_section6 interval start_date end_date) (\<lambda>intervals6.
      bind_err (section6_loop c goals page_path intervals6) (\<lambda>line6.
      Inr \<lparr>total_goal_visitors = total_goal_visitors,
           total_events = total_events,
           section3_lines = lines3,
           section4_lines = lines4,
           conversion_visitors = conversion_visitors,
           conversion_rate = conversion_rate,
           section6_line = line6\<rparr>)))))))))))"

section \<open>Example runs\<close>

text \<open>
  The end-to-end scenario of the specification: granularity day, range 2024-06-01 to
  2024-06-02, the single goal signup; every breakdown answers with signup at 10 visitors and
  12 events, the site-wide aggregate of the whole range is 9, the site-wide aggregate of a
  single day is 3, and every page-filtered aggregate is 4.
\<close>

definition june_1 :: date where
  "june_1 = \<lparr>year = 2024, month = 6, day = 1\<rparr>"

definition june_2 :: date where
  "june_2 = \<lparr>year = 2024, month = 6, day = 2\<rparr>"

definition signup_item :: item where
  "signup_item =
     \<lparr>goal_key = Some ''signup'', event_goal_key = None, name_key = None,
      visitors_key = Some 10, events_key = Some 12\<rparr>"

definition scenario_client :: client where
  "scenario_client =
     \<lparr>breakdown = (\<lambda>w ms f. Inr [signup_item]),
      aggregate = (\<lambda>w f. case f of
                      NoFilter \<Rightarrow> if w = (june_1, june_2) then Inr (Some 9) else Inr (Some 3)
                    | _ \<Rightarrow> Inr (Some 4))\<rparr>"

text \<open>
  A run whose breakdown sums to 150 visitors (goals a and b, named under two different
  keys) against a site-wide aggregate of 120.
\<close>

definition capped_client :: client where
  "capped_client =
     \<lparr>breakdown = (\<lambda>w ms f.
        Inr [\<lparr>goal_key = Some ''a'', event_goal_key = None, name_key = None,
               visitors_key = Some 100, events_key = Some 400\<rparr>,
             \<lparr>goal_key = None, event_goal_key = Some ''b'', name_key = None,
               visitors_key = Some 50, events_key = Some 60\<rparr>]),
      aggregate = (\<lambda>w f. Inr (Some 120))\<rparr>"

text \<open>
  A run in which no entry names a requested goal and the aggregates carry no value.
\<close>

definition silent_client :: client where
  "silent_client =
     \<lparr>breakdown = (\<lambda>w ms f.
        Inr [\<lparr>goal_key = Some ''other'', event_goal_key = None, name_key = None,
               visitors_key = Some 7, events_key = Some 8\<rparr>]),
      aggregate = (\<lambda>w f. Inr None)\<rparr>"

section \<open>Properties\<close>

declare validate_month_loop.simps [simp del]
declare day_loop3.simps [simp del] week_loop3.simps [simp del] month_loop3.simps [simp del]
declare day_loop6.simps [simp del] week_loop6.simps [simp del] month_loop6.simps [simp del]

subsection \<open>add_one_month\<close>

lemma add_one_month_november: "month d = 11 \<Longrightarrow> add_one_month d = Inl ValueError"
  by (simp add: add_one_month_def mk_date_def)

lemma add_one_month_other_months:
  assumes "valid_date d" "month d \<noteq> 11" "\<not> (month d = 12 \<and> year d = MAXYEAR)"
  shows "add_one_month d =
           (if month d = 12
            then Inr \<lparr>year = year d + 1, month = 1,
                      day = min (day d) (days_in_month (year d + 1) 1)\<rparr>
            else Inr \<lparr>year = year d, month = month d + 1,
                      day = min (day d) (days_in_month (year d) (month d + 1))\<rparr>)"
  using assms
  by (auto simp: valid_date_def add_one_month_def mk_date_def prev_day_def MAXYEAR_def
        days_in_month_def)

lemma add_one_month_examples:
  "add_one_month \<lparr>year = 2024, month = 1, day = 31\<rparr> = Inr \<lparr>year = 2024, month = 2, day = 29\<rparr>"
  "add_one_month \<lparr>year = 2023, month = 1, day = 31\<rparr> = Inr \<lparr>year = 2023, month = 2, day = 28\<rparr>"
  "add_one_month \<lparr>year = 2024, month = 12, day = 15\<rparr> = Inr \<lparr>year = 2025, month = 1, day = 15\<rparr>"
  by (simp_all add: add_one_month_def mk_date_def prev_day_def days_in_month_def is_leap_def
        MAXYEAR_def)

text \<open>
  Claim C4. add_one_month is meant to be total on valid dates, November included. The code
  is not: for a date in November the incremented month is 12, and the call
  \<^verbatim>\<open>date(year, month+1, 1)\<close> that looks for the last day of the target month asks for
  month 13. On the valid date 2024-11-15 the function raises \<^verbatim>\<open>ValueError\<close>.
\<close>

theorem add_one_month_november_raises:
  "valid_date \<lparr>year = 2024, month = 11, day = 15\<rparr> \<and>
   add_one_month \<lparr>year = 2024, month = 11, day = 15\<rparr> = Inl ValueError"
  by (simp add: valid_date_def add_one_month_def mk_date_def days_in_month_def MAXYEAR_def)

text \<open>
  Claim C6. add_one_month is meant to return the same day of the next month, clamped to
  that month's last day. On 2023-11-30 the result should be 2023-12-30; the code raises
  \<^verbatim>\<open>ValueError\<close> and returns no date. (The three dates the claim lists, and every month
  other than November, behave as the claim says: \<open>add_one_month_examples\<close>,
  \<open>add_one_month_other_months\<close>.)
\<close>

theorem add_one_month_no_december_target:
  "valid_date \<lparr>year = 2023, month = 11, day = 30\<rparr> \<and>
   mk_date 2023 12 30 = Inr \<lparr>year = 2023, month = 12, day = 30\<rparr> \<and>
   add_one_month \<lparr>year = 2023, month = 11, day = 30\<rparr> = Inl ValueError"
  by (simp add: valid_date_def add_one_month_def mk_date_def days_in_month_def MAXYEAR_def)

subsection \<open>The two interval-building blocks agree\<close>

lemma day_loops_agree: "day_loop3 c e acc = day_loop6 c e acc"
proof (induction c e acc rule: day_loop3.induct)
  case (1 current end_date intervals)
  show ?case
    by (subst day_loop3.simps, subst day_loop6.simps) (simp add: 1 split: sum.splits)
qed

lemma week_loops_agree: "week_loop3 c e acc = week_loop6 c e acc"
proof (induction c e acc rule: week_loop3.induct)
  case (1 current end_date intervals)
  show ?case
    by (subst week_loop3.simps, subst week_loop6.simps) (simp add: 1 split: sum.splits)
qed

lemma month_loops_agree: "month_loop3 c e acc = month_loop6 c e acc"
proof (induction c e acc rule: month_loop3.induct)
  case (1 current end_date intervals)
  show ?case
    by (subst month_loop3.simps, subst month_loop6.simps) (simp add: 1 split: sum.splits)
qed

text \<open>
  Claim C10. The interval list of section 3 and the interval list of section 6 are built by
  two separate copies of the same loops; for every granularity, start and end they give the
  same result: the same ordered list of (start, end) pairs, or the same error.
\<close>

theorem intervals_sections_agree:
  "intervals_section3 interval start_date end_date =
   intervals_section6 interval start_date end_date"
  by (simp add: intervals_section3_def intervals_section6_def day_loops_agree week_loops_agree
        month_loops_agree split: granularity.splits)

subsection \<open>The sums and the caps of the report\<close>

lemma goal_visitors_loop_total:
  "fst (goal_visitors_loop goals data (t, m)) =
     t + (\<Sum>it\<leftarrow>filter (\<lambda>it. goal_in (item_goal it) goals) data. get0 (visitors_key it))"
  by (induction data arbitrary: t m) (auto simp: goal_in_def Let_def split: option.splits)

lemma events_loop_sum:
  "events_loop goals data t =
     t + (\<Sum>it\<leftarrow>filter (\<lambda>it. goal_in (item_goal it) goals) data. get0 (events_key it))"
  by (induction data arbitrary: t) auto

lemma visitors_loop_sum:
  "visitors_loop goals data t =
     t + (\<Sum>it\<leftarrow>filter (\<lambda>it. goal_in (item_goal it) goals) data. get0 (visitors_key it))"
  by (induction data arbitrary: t) auto

lemma interval_loop_sum:
  "interval_loop goals data (v, e) =
     (v + (\<Sum>it\<leftarrow>filter (\<lambda>it. goal_in (item_goal it) goals) data. get0 (visitors_key it)),
      e + (\<Sum>it\<leftarrow>filter (\<lambda>it. goal_in (item_goal it) goals) data. get0 (events_key it)))"
  by (induction data arbitrary: v e) auto

lemma conversion_loop_sum:
  "conversion_loop c w p goals t = Inr n \<Longrightarrow>
     \<exists>vs. map (\<lambda>g. aggregate c w (GoalPageFilter g p)) goals = map Inr vs \<and>
          n = t + sum_list (map get0 vs)"
proof (induction goals arbitrary: t)
  case Nil
  then show ?case by simp
next
  case (Cons g goals)
  from Cons.prems obtain v where v: "aggregate c w (GoalPageFilter g p) = Inr v"
    and rest: "conversion_loop c w p goals (t + get0 v) = Inr n"
    by (auto split: sum.splits)
  from Cons.IH [OF rest] obtain vs where
    "map (\<lambda>g. aggregate c w (GoalPageFilter g p)) goals = map Inr vs" "n = t + get0 v + sum_list (map get0 vs)"
    by auto
  with v have "map (\<lambda>g. aggregate c w (GoalPageFilter g p)) (g # goals) = map Inr (v # vs) \<and>
     n = t + sum_list (map get0 (v # vs))" by simp
  then show ?case by blast
qed

lemma section3_loop_lines:
  "section3_loop c goals tgv ivs = Inr lines \<Longrightarrow>
     length lines = length ivs \<and>
     (\<forall>i<length ivs. \<exists>data. breakdown c (ivs ! i) [Visitors, Events] NoFilter = Inr data \<and>
        lines ! i = interval_figures goals tgv data)"
proof (induction ivs arbitrary: lines)
  case Nil
  then show ?case by simp
next
  case (Cons iv ivs)
  obtain s e where iv: "iv = (s, e)" by (cases iv)
  from Cons.prems iv obtain data rest where
    d: "breakdown c (s, e) [Visitors, Events] NoFilter = Inr data"
    and r: "section3_loop c goals tgv ivs = Inr rest"
    and l: "lines = interval_figures goals tgv data # rest"
    by (auto split: sum.splits)
  from Cons.IH [OF r] have len: "length rest = length ivs"
    and ih: "\<forall>i<length ivs. \<exists>data. breakdown c (ivs ! i) [Visitors, Events] NoFilter = Inr data \<and>
        rest ! i = interval_figures goals tgv data" by auto
  show ?case
  proof (intro conjI allI impI)
    show "length lines = length (iv # ivs)" using l len by simp
  next
    fix i assume "i < length (iv # ivs)"
    then show "\<exists>data. breakdown c ((iv # ivs) ! i) [Visitors, Events] NoFilter = Inr data \<and>
        lines ! i = interval_figures goals tgv data"
      using d l ih iv by (cases i) auto
  qed
qed

lemma section6_loop_lines:
  "section6_loop c goals page ivs = Inr rates \<Longrightarrow>
     length rates = length ivs \<and>
     (\<forall>i<length ivs. \<exists>home_data goal_page_data.
        aggregate c (ivs ! i) (PageFilter page) = Inr home_data \<and>
        breakdown c (ivs ! i) [Visitors] (PageFilter page) = Inr goal_page_data \<and>
        rates ! i = interval_rate goals (get0 home_data) goal_page_data)"
proof (induction ivs arbitrary: rates)
  case Nil
  then show ?case by simp
next
  case (Cons iv ivs)
  obtain s e where iv: "iv = (s, e)" by (cases iv)
  from Cons.prems iv obtain h g rest where
    h: "aggregate c (s, e) (PageFilter page) = Inr h"
    and g: "breakdown c (s, e) [Visitors] (PageFilter page) = Inr g"
    and r: "section6_loop c goals page ivs = Inr rest"
    and l: "rates = interval_rate goals (get0 h) g # rest"
    by (auto split: sum.splits)
  from Cons.IH [OF r] have len: "length rest = length ivs"
    and ih: "\<forall>i<length ivs. \<exists>home_data goal_page_data.
        aggregate c (ivs ! i) (PageFilter page) = Inr home_data \<and>
        breakdown c (ivs ! i) [Visitors] (PageFilter page) = Inr goal_page_data \<and>
        rest ! i = interval_rate goals (get0 home_data) goal_page_data" by auto
  show ?case
  proof (intro conjI allI impI)
    show "length rates = length (iv # ivs)" using l len by simp
  next
    fix i assume "i < length (iv # ivs)"
    then show "\<exists>home_data goal_page_data.
        aggregate c ((iv # ivs) ! i) (PageFilter page) = Inr home_data \<and>
        breakdown c ((iv # ivs) ! i) [Visitors] (PageFilter page) = Inr goal_page_data \<and>
        rates ! i = interval_rate goals (get0 home_data) goal_page_data"
      using h g l ih iv by (cases i) auto
  qed
qed

lemma run_report_Inr:
  assumes "run_report c interval start_date end_date page_path goals = Inr r"
  shows "\<exists>data site_data events_data ivs3 home_data conv_sum ivs6.
    \<not> date_less end_date start_date \<and>
    validate_interval_alignment interval start_date end_date = Inr () \<and>
    breakdown c (start_date, end_date) [Visitors] NoFilter = Inr data \<and>
    aggregate c (start_date, end_date) NoFilter = Inr site_data \<and>
    breakdown c (start_date, end_date) [Events] NoFilter = Inr events_data \<and>
    intervals_section3 interval start_date end_date = Inr ivs3 \<and>
    section3_loop c goals (total_goal_visitors r) ivs3 = Inr (section3_lines r) \<and>
    aggregate c (start_date, end_date) (PageFilter page_path) = Inr home_data \<and>
    conversion_loop c (start_date, end_date) page_path goals 0 = Inr conv_sum \<and>
    intervals_section6 interval start_date end_date = Inr ivs6 \<and>
    section6_loop c goals page_path ivs6 = Inr (section6_line r) \<and>
    total_goal_visitors r = min (fst (goal_visitors_loop goals data (0, []))) (get0 site_data) \<and>
    total_events r = events_loop goals events_data 0 \<and>
    section4_lines r =
      section4 (snd (goal_visitors_loop goals data (0, []))) (total_goal_visitors r) \<and>
    conversion_visitors r = min conv_sum (get0 home_data) \<and>
    conversion_rate r = percent_of (conversion_visitors r) (get0 home_data)"
  using assms
  by (auto simp: run_report_def bind_err_def Let_def split: if_splits sum.splits prod.splits)


text \<open>
  Claim C1. In every report run that completes, each visitor count formed by summing
  per-goal counts against a non-breakdown aggregate of the same window and filter is the
  minimum of the sum and that aggregate, hence at most the aggregate: the whole-range goal
  visitors against the site-wide visitors, the page-filtered conversions (one aggregate query
  per goal) against the page-wide visitors, and, in each interval of section 6, the
  page-filtered goal visitors against the page-wide visitors of that interval, from which
  the interval's rate is taken. A sum of 150 against an aggregate of 120 gives 120.
\<close>

theorem capping_rule:
  assumes run: "run_report c interval start_date end_date page_path goals = Inr r"
  shows "\<exists>data site_data home_data vs ivs.
    breakdown c (start_date, end_date) [Visitors] NoFilter = Inr data \<and>
    aggregate c (start_date, end_date) NoFilter = Inr site_data \<and>
    total_goal_visitors r =
      min (\<Sum>it\<leftarrow>filter (\<lambda>it. goal_in (item_goal it) goals) data. get0 (visitors_key it))
          (get0 site_data) \<and>
    total_goal_visitors r \<le> get0 site_data \<and>
    ((\<Sum>it\<leftarrow>filter (\<lambda>it. goal_in (item_goal it) goals) data. get0 (visitors_key it)) = 150 \<and>
       get0 site_data = 120 \<longrightarrow> total_goal_visitors r = 120) \<and>
    aggregate c (start_date, end_date) (PageFilter page_path) = Inr home_data \<and>
    map (\<lambda>g. aggregate c (start_date, end_date) (GoalPageFilter g page_path)) goals = map Inr vs \<and>
    conversion_visitors r = min (sum_list (map get0 vs)) (get0 home_data) \<and>
    conversion_visitors r \<le> get0 home_data \<and>
    intervals_section6 interval start_date end_date = Inr ivs \<and>
    length (section6_line r) = length ivs \<and>
    (\<forall>i<length ivs. \<exists>home goal_page_data.
       aggregate c (ivs ! i) (PageFilter page_path) = Inr home \<and>
       breakdown c (ivs ! i) [Visitors] (PageFilter page_path) = Inr goal_page_data \<and>
       section6_line r ! i =
         percent_of
           (min (\<Sum>it\<leftarrow>filter (\<lambda>it. goal_in (item_goal it) goals) goal_page_data.
                   get0 (visitors_key it))
                (get0 home))
           (get0 home))"
proof -
  from run_report_Inr [OF run] obtain data site_data events_data ivs3 home_data conv_sum ivs6
    where d: "breakdown c (start_date, end_date) [Visitors] NoFilter = Inr data"
      and s: "aggregate c (start_date, end_date) NoFilter = Inr site_data"
      and h: "aggregate c (start_date, end_date) (PageFilter page_path) = Inr home_data"
      and cl: "conversion_loop c (start_date, end_date) page_path goals 0 = Inr conv_sum"
      and i6: "intervals_section6 interval start_date end_date = Inr ivs6"
      and l6: "section6_loop c goals page_path ivs6 = Inr (section6_line r)"
      and t: "total_goal_visitors r =
                min (fst (goal_visitors_loop goals data (0, []))) (get0 site_data)"
      and cv: "conversion_visitors r = min conv_sum (get0 home_data)"
    by blast
  from conversion_loop_sum [OF cl] obtain vs where
    vs: "map (\<lambda>g. aggregate c (start_date, end_date) (GoalPageFilter g page_path)) goals = map Inr vs"
    and cs: "conv_sum = sum_list (map get0 vs)" by auto
  have t': "total_goal_visitors r =
      min (\<Sum>it\<leftarrow>filter (\<lambda>it. goal_in (item_goal it) goals) data. get0 (visitors_key it))
          (get0 site_data)"
    using t by (simp add: goal_visitors_loop_total)
  have six: "length (section6_line r) = length ivs6 \<and>
    (\<forall>i<length ivs6. \<exists>home goal_page_data.
       aggregate c (ivs6 ! i) (PageFilter page_path) = Inr home \<and>
       breakdown c (ivs6 ! i) [Visitors] (PageFilter page_path) = Inr goal_page_data \<and>
       section6_line r ! i =
         percent_of
           (min (\<Sum>it\<leftarrow>filter (\<lambda>it. goal_in (item_goal it) goals) goal_page_data.
                   get0 (visitors_key it))
                (get0 home))
           (get0 home))"
    using section6_loop_lines [OF l6] by (simp add: interval_rate_def visitors_loop_sum)
  from d s t' h vs cv cs i6 six show ?thesis
    by (intro exI [of _ data] exI [of _ site_data] exI [of _ home_data] exI [of _ vs]
          exI [of _ ivs6]) simp
qed

theorem capping_rule_witness:
  "\<exists>r. run_report capped_client Day june_1 june_2 ''/'' [''a'', ''b''] = Inr r \<and>
       total_goal_visitors r = 120 \<and> conversion_visitors r \<le> 120"
proof -
  let ?r = "\<lparr>total_goal_visitors = 120, total_events = 460,
        section3_lines = [(460, 120), (460, 120)],
        section4_lines = [(''a'', 100, 250 / 3), (''b'', 50, 125 / 3)],
        conversion_visitors = 120, conversion_rate = 100,
        section6_line = [100, 100]\<rparr>"
  have run: "run_report capped_client Day june_1 june_2 ''/'' [''a'', ''b''] = Inr ?r"
    by code_simp
  from capping_rule [OF run] obtain data site_data home_data where
    d: "breakdown capped_client (june_1, june_2) [Visitors] NoFilter = Inr data"
    and s: "aggregate capped_client (june_1, june_2) NoFilter = Inr site_data"
    and c: "(\<Sum>it\<leftarrow>filter (\<lambda>it. goal_in (item_goal it) [''a'', ''b'']) data.
               get0 (visitors_key it)) = 150 \<and> get0 site_data = 120
            \<longrightarrow> total_goal_visitors ?r = 120"
    and h: "aggregate capped_client (june_1, june_2) (PageFilter ''/'') = Inr home_data"
    and cv: "conversion_visitors ?r \<le> get0 home_data"
    by blast
  from d have data: "data = [\<lparr>goal_key = Some ''a'', event_goal_key = None, name_key = None,
               visitors_key = Some 100, events_key = Some 400\<rparr>,
             \<lparr>goal_key = None, event_goal_key = Some ''b'', name_key = None,
               visitors_key = Some 50, events_key = Some 60\<rparr>]"
    by (simp add: capped_client_def)
  from s have site: "site_data = Some 120" by (simp add: capped_client_def)
  from h have home: "home_data = Some 120" by (simp add: capped_client_def)
  have "(\<Sum>it\<leftarrow>filter (\<lambda>it. goal_in (item_goal it) [''a'', ''b'']) data.
               get0 (visitors_key it)) = 150"
    by (simp add: data goal_in_def item_goal_def py_or_def get0_def)
  with c site have "total_goal_visitors ?r = 120" by (simp add: get0_def)
  moreover from cv home have "conversion_visitors ?r \<le> 120" by (simp add: get0_def)
  ultimately show ?thesis using run by blast
qed


text \<open>
  Claim C3. In every report run that completes, the visitor figure of each interval of
  section 3 is the minimum of that interval's summed per-goal visitors and the whole-range
  total goal visitors, itself already the minimum of the whole-range sum and the whole-range
  site-wide aggregate. No per-interval site-wide aggregate enters the figure: in the example
  run the site-wide aggregate of a single day is 3 and both daily figures are 9.
\<close>

theorem interval_visitors_capped_by_whole_range_total:
  assumes run: "run_report c interval start_date end_date page_path goals = Inr r"
  shows "\<exists>data site_data ivs.
    breakdown c (start_date, end_date) [Visitors] NoFilter = Inr data \<and>
    aggregate c (start_date, end_date) NoFilter = Inr site_data \<and>
    total_goal_visitors r =
      min (\<Sum>it\<leftarrow>filter (\<lambda>it. goal_in (item_goal it) goals) data. get0 (visitors_key it))
          (get0 site_data) \<and>
    intervals_section3 interval start_date end_date = Inr ivs \<and>
    length (section3_lines r) = length ivs \<and>
    (\<forall>i<length ivs. \<exists>interval_data.
       breakdown c (ivs ! i) [Visitors, Events] NoFilter = Inr interval_data \<and>
       snd (section3_lines r ! i) =
         min (\<Sum>it\<leftarrow>filter (\<lambda>it. goal_in (item_goal it) goals) interval_data.
                 get0 (visitors_key it))
             (total_goal_visitors r))"
proof -
  from run_report_Inr [OF run] obtain data site_data ivs3
    where d: "breakdown c (start_date, end_date) [Visitors] NoFilter = Inr data"
      and s: "aggregate c (start_date, end_date) NoFilter = Inr site_data"
      and i3: "intervals_section3 interval start_date end_date = Inr ivs3"
      and l3: "section3_loop c goals (total_goal_visitors r) ivs3 = Inr (section3_lines r)"
      and t: "total_goal_visitors r =
                min (fst (goal_visitors_loop goals data (0, []))) (get0 site_data)"
    by blast
  have t': "total_goal_visitors r =
      min (\<Sum>it\<leftarrow>filter (\<lambda>it. goal_in (item_goal it) goals) data. get0 (visitors_key it))
          (get0 site_data)"
    using t by (simp add: goal_visitors_loop_total)
  have three: "length (section3_lines r) = length ivs3 \<and>
    (\<forall>i<length ivs3. \<exists>interval_data.
       breakdown c (ivs3 ! i) [Visitors, Events] NoFilter = Inr interval_data \<and>
       snd (section3_lines r ! i) =
         min (\<Sum>it\<leftarrow>filter (\<lambda>it. goal_in (item_goal it) goals) interval_data.
                 get0 (visitors_key it))
             (total_goal_visitors r))"
    using section3_loop_lines [OF l3] by (fastforce simp: interval_figures_def interval_loop_sum)
  from d s t' i3 three show ?thesis
    by (intro exI [of _ data] exI [of _ site_data] exI [of _ ivs3]) simp
qed

theorem interval_visitors_capped_witness:
  "\<exists>r. run_report scenario_client Day june_1 june_2 ''/'' [''signup''] = Inr r \<and>
       aggregate scenario_client (june_1, june_1) NoFilter = Inr (Some 3) \<and>
       total_goal_visitors r = 9 \<and>
       snd (section3_lines r ! 0) = 9 \<and> snd (section3_lines r ! 1) = 9"
proof -
  let ?r = "\<lparr>total_goal_visitors = 9, total_events = 12, section3_lines = [(12, 9), (12, 9)],
          section4_lines = [(''signup'', 10, 1000 / 9)], conversion_visitors = 4,
          conversion_rate = 100, section6_line = [100, 100]\<rparr>"
  have run: "run_report scenario_client Day june_1 june_2 ''/'' [''signup''] = Inr ?r"
    by code_simp
  have ivs: "intervals_section3 Day june_1 june_2 = Inr [(june_1, june_1), (june_2, june_2)]"
    by code_simp
  from interval_visitors_capped_by_whole_range_total [OF run] ivs obtain data site_data where
    d: "breakdown scenario_client (june_1, june_2) [Visitors] NoFilter = Inr data"
    and s: "aggregate scenario_client (june_1, june_2) NoFilter = Inr site_data"
    and t: "total_goal_visitors ?r =
      min (\<Sum>it\<leftarrow>filter (\<lambda>it. goal_in (item_goal it) [''signup'']) data. get0 (visitors_key it))
          (get0 site_data)"
    and a: "\<forall>i<length [(june_1, june_1), (june_2, june_2)]. \<exists>interval_data.
       breakdown scenario_client ([(june_1, june_1), (june_2, june_2)] ! i) [Visitors, Events] NoFilter
         = Inr interval_data \<and>
       snd (section3_lines ?r ! i) =
         min (\<Sum>it\<leftarrow>filter (\<lambda>it. goal_in (item_goal it) [''signup'']) interval_data.
                 get0 (visitors_key it))
             (total_goal_visitors ?r)"
    by auto
  from d s have "data = [signup_item]" "site_data = Some 9"
    by (simp_all add: scenario_client_def)
  with t have tot: "total_goal_visitors ?r = 9"
    by (simp add: signup_item_def goal_in_def item_goal_def py_or_def get0_def)
  from a have "\<exists>interval_data.
       breakdown scenario_client (june_1, june_1) [Visitors, Events] NoFilter = Inr interval_data \<and>
       snd (section3_lines ?r ! 0) =
         min (\<Sum>it\<leftarrow>filter (\<lambda>it. goal_in (item_goal it) [''signup'']) interval_data.
                 get0 (visitors_key it))
             (total_goal_visitors ?r)"
    by (auto dest: spec [of _ 0])
  then have l0: "snd (section3_lines ?r ! 0) = 9"
    by (auto simp: scenario_client_def signup_item_def goal_in_def item_goal_def py_or_def
          get0_def)
  from a have "\<exists>interval_data.
       breakdown scenario_client (june_2, june_2) [Visitors, Events] NoFilter = Inr interval_data \<and>
       snd (section3_lines ?r ! 1) =
         min (\<Sum>it\<leftarrow>filter (\<lambda>it. goal_in (item_goal it) [''signup'']) interval_data.
                 get0 (visitors_key it))
             (total_goal_visitors ?r)"
    by (auto dest: spec [of _ 1])
  then have l1: "snd (section3_lines ?r ! 1) = 9"
    by (auto simp: scenario_client_def signup_item_def goal_in_def item_goal_def py_or_def
          get0_def)
  have agg: "aggregate scenario_client (june_1, june_1) NoFilter = Inr (Some 3)"
    by (simp add: scenario_client_def june_1_def june_2_def)
  from run agg tot l0 l1 show ?thesis by blast
qed


text \<open>
  Claim C8. In every report run that completes, the total events figure is the plain sum of
  the events values of the breakdown entries naming a requested goal, and so is the events
  figure of each interval of section 3; no aggregate bounds either. In the example run the
  events total is 460 against a site-wide aggregate of 120.
\<close>

theorem events_plain_sum:
  assumes run: "run_report c interval start_date end_date page_path goals = Inr r"
  shows "\<exists>events_data ivs.
    breakdown c (start_date, end_date) [Events] NoFilter = Inr events_data \<and>
    total_events r =
      (\<Sum>it\<leftarrow>filter (\<lambda>it. goal_in (item_goal it) goals) events_data. get0 (events_key it)) \<and>
    intervals_section3 interval start_date end_date = Inr ivs \<and>
    length (section3_lines r) = length ivs \<and>
    (\<forall>i<length ivs. \<exists>interval_data.
       breakdown c (ivs ! i) [Visitors, Events] NoFilter = Inr interval_data \<and>
       fst (section3_lines r ! i) =
         (\<Sum>it\<leftarrow>filter (\<lambda>it. goal_in (item_goal it) goals) interval_data.
             get0 (events_key it)))"
proof -
  from run_report_Inr [OF run] obtain events_data ivs3
    where e: "breakdown c (start_date, end_date) [Events] NoFilter = Inr events_data"
      and i3: "intervals_section3 interval start_date end_date = Inr ivs3"
      and l3: "section3_loop c goals (total_goal_visitors r) ivs3 = Inr (section3_lines r)"
      and t: "total_events r = events_loop goals events_data 0"
    by blast
  have t': "total_events r =
      (\<Sum>it\<leftarrow>filter (\<lambda>it. goal_in (item_goal it) goals) events_data. get0 (events_key it))"
    using t by (simp add: events_loop_sum)
  have three: "length (section3_lines r) = length ivs3 \<and>
    (\<forall>i<length ivs3. \<exists>interval_data.
       breakdown c (ivs3 ! i) [Visitors, Events] NoFilter = Inr interval_data \<and>
       fst (section3_lines r ! i) =
         (\<Sum>it\<leftarrow>filter (\<lambda>it. goal_in (item_goal it) goals) interval_data.
             get0 (events_key it)))"
    using section3_loop_lines [OF l3] by (fastforce simp: interval_figures_def interval_loop_sum)
  from e t' i3 three show ?thesis
    by (intro exI [of _ events_data] exI [of _ ivs3]) simp
qed

theorem events_plain_sum_witness:
  "\<exists>r. run_report capped_client Day june_1 june_1 ''/'' [''a'', ''b''] = Inr r \<and>
       aggregate capped_client (june_1, june_1) NoFilter = Inr (Some 120) \<and>
       total_events r = 460 \<and> fst (section3_lines r ! 0) = 460"
proof -
  let ?r = "\<lparr>total_goal_visitors = 120, total_events = 460,
        section3_lines = [(460, 120)],
        section4_lines = [(''a'', 100, 250 / 3), (''b'', 50, 125 / 3)],
        conversion_visitors = 120, conversion_rate = 100,
        section6_line = [100]\<rparr>"
  have run: "run_report capped_client Day june_1 june_1 ''/'' [''a'', ''b''] = Inr ?r"
    by code_simp
  have ivs: "intervals_section3 Day june_1 june_1 = Inr [(june_1, june_1)]"
    by code_simp
  from events_plain_sum [OF run] ivs obtain events_data where
    e: "breakdown capped_client (june_1, june_1) [Events] NoFilter = Inr events_data"
    and t: "total_events ?r =
      (\<Sum>it\<leftarrow>filter (\<lambda>it. goal_in (item_goal it) [''a'', ''b'']) events_data. get0 (events_key it))"
    and a: "\<forall>i<length [(june_1, june_1)]. \<exists>interval_data.
       breakdown capped_client ([(june_1, june_1)] ! i) [Visitors, Events] NoFilter
         = Inr interval_data \<and>
       fst (section3_lines ?r ! i) =
         (\<Sum>it\<leftarrow>filter (\<lambda>it. goal_in (item_goal it) [''a'', ''b'']) interval_data.
                 get0 (events_key it))"
    by auto
  from e t have tot: "total_events ?r = 460"
    by (auto simp: capped_client_def goal_in_def item_goal_def py_or_def get0_def)
  from a have "\<exists>interval_data.
       breakdown capped_client (june_1, june_1) [Visitors, Events] NoFilter = Inr interval_data \<and>
       fst (section3_lines ?r ! 0) =
         (\<Sum>it\<leftarrow>filter (\<lambda>it. goal_in (item_goal it) [''a'', ''b'']) interval_data.
                 get0 (events_key it))"
    by (auto dest: spec [of _ 0])
  then have l0: "fst (section3_lines ?r ! 0) = 460"
    by (auto simp: capped_client_def goal_in_def item_goal_def py_or_def get0_def)
  have agg: "aggregate capped_client (june_1, june_1) NoFilter = Inr (Some 120)"
    by (simp add: capped_client_def)
  from run agg tot l0 show ?thesis by blast
qed


lemma goal_visitors_loop_no_match:
  "\<forall>it\<in>set data. \<not> goal_in (item_goal it) goals \<Longrightarrow> goal_visitors_loop goals data acc = acc"
  by (induction data arbitrary: acc) (auto simp: goal_in_def split: option.splits)

lemma section4_zero_total:
  "l \<in> set (section4 m 0) \<Longrightarrow> snd (snd l) = 0"
  by (auto simp: section4_def percent_of_def)

text \<open>
  Claim C7. When no entry of a breakdown answer names a requested goal, each counting loop
  of the script returns 0 (and an empty goal map), as a plain value: the loops have no
  failing branch. A percentage or rate whose denominator is 0 is 0: the section 4
  percentages when the total goal visitors are 0, the section 5 conversion rate when the
  page-wide visitors are 0 or absent, and the rate of a section 6 interval whose page-wide
  visitors are 0. The guard \<^verbatim>\<open>if ... > 0 else 0\<close> keeps the division from being reached.
\<close>

theorem no_match_and_zero_denominator:
  "((\<forall>it\<in>set data. \<not> goal_in (item_goal it) goals) \<longrightarrow>
      goal_visitors_loop goals data (0, []) = (0, []) \<and>
      events_loop goals data 0 = 0 \<and>
      interval_loop goals data (0, 0) = (0, 0) \<and>
      visitors_loop goals data 0 = 0) \<and>
   percent_of n 0 = 0 \<and>
   interval_rate goals 0 data = 0 \<and>
   (run_report c interval start_date end_date page_path goals = Inr r \<longrightarrow>
      (total_goal_visitors r = 0 \<longrightarrow> (\<forall>l\<in>set (section4_lines r). snd (snd l) = 0)) \<and>
      (aggregate c (start_date, end_date) (PageFilter page_path) = Inr None \<or>
       aggregate c (start_date, end_date) (PageFilter page_path) = Inr (Some 0)
         \<longrightarrow> conversion_rate r = 0))"
proof (intro conjI impI)
  assume nm: "\<forall>it\<in>set data. \<not> goal_in (item_goal it) goals"
  show "goal_visitors_loop goals data (0, []) = (0, [])"
    using nm by (rule goal_visitors_loop_no_match)
  have f: "filter (\<lambda>it. goal_in (item_goal it) goals) data = []"
    using nm by (simp add: filter_empty_conv)
  show "events_loop goals data 0 = 0" by (simp add: events_loop_sum f)
  show "interval_loop goals data (0, 0) = (0, 0)" by (simp add: interval_loop_sum f)
  show "visitors_loop goals data 0 = 0" by (simp add: visitors_loop_sum f)
next
  show "percent_of n 0 = 0" by (simp add: percent_of_def)
  show "interval_rate goals 0 data = 0" by (simp add: interval_rate_def percent_of_def Let_def)
next
  assume run: "run_report c interval start_date end_date page_path goals = Inr r"
    and z: "total_goal_visitors r = 0"
  from run_report_Inr [OF run] obtain gvm where
    "section4_lines r = section4 gvm (total_goal_visitors r)" by blast
  with z have "section4_lines r = section4 gvm 0" by simp
  then show "\<forall>l\<in>set (section4_lines r). snd (snd l) = 0"
    by (simp add: section4_zero_total)
next
  assume run: "run_report c interval start_date end_date page_path goals = Inr r"
    and z: "aggregate c (start_date, end_date) (PageFilter page_path) = Inr None \<or>
       aggregate c (start_date, end_date) (PageFilter page_path) = Inr (Some 0)"
  from run_report_Inr [OF run] obtain home_data where
    h: "aggregate c (start_date, end_date) (PageFilter page_path) = Inr home_data"
    and cr: "conversion_rate r = percent_of (conversion_visitors r) (get0 home_data)"
    by blast
  from h z have "get0 home_data = 0" by (auto simp: get0_def)
  with cr show "conversion_rate r = 0" by (simp add: percent_of_def)
qed


theorem no_match_and_zero_denominator_witness:
  "goal_in (item_goal signup_item) [''login''] = False \<and>
   goal_visitors_loop [''login''] [signup_item] (0, []) = (0, []) \<and>
   events_loop [''login''] [signup_item] 0 = 0 \<and>
   (\<exists>r. run_report silent_client Day june_1 june_2 ''/'' [''other''] = Inr r \<and>
        total_goal_visitors r = 0 \<and>
        aggregate silent_client (june_1, june_2) (PageFilter ''/'') = Inr None \<and>
        section4_lines r = [(''other'', 7, 0)] \<and>
        conversion_rate r = 0)"
proof -
  let ?r = "\<lparr>total_goal_visitors = 0, total_events = 8, section3_lines = [(8, 0), (8, 0)],
          section4_lines = [(''other'', 7, 0)], conversion_visitors = 0,
          conversion_rate = 0, section6_line = [0, 0]\<rparr>"
  have g: "goal_in (item_goal signup_item) [''login''] = False"
    by (simp add: signup_item_def goal_in_def item_goal_def py_or_def)
  then have nm: "\<forall>it\<in>set [signup_item]. \<not> goal_in (item_goal it) [''login'']"
    by simp
  have run: "run_report silent_client Day june_1 june_2 ''/'' [''other''] = Inr ?r"
    by code_simp
  have agg: "aggregate silent_client (june_1, june_2) (PageFilter ''/'') = Inr None"
    by (simp add: silent_client_def)
  have tot: "total_goal_visitors ?r = 0" by simp
  from no_match_and_zero_denominator [of "[signup_item]" "[''login'']"] nm
  have a: "goal_visitors_loop [''login''] [signup_item] (0, []) = (0, [])"
    and b: "events_loop [''login''] [signup_item] 0 = 0"
    by blast+
  from no_match_and_zero_denominator
         [of _ "[''other'']" _ silent_client Day june_1 june_2 "''/''" ?r] run tot agg
  have d: "conversion_rate ?r = 0"
    by blast
  have e: "section4_lines ?r = [(''other'', 7, 0)]" by simp
  from g a b run tot agg d e show ?thesis by blast
qed

subsection \<open>The order of the breakdown by percent\<close>

lemma sorted_goals_descending:
  assumes "i \<le> j" "j < length (sorted_goals m)"
  shows "snd (sorted_goals m ! j) \<le> snd (sorted_goals m ! i)"
proof -
  have "sorted (map (\<lambda>x. - snd x) (sorted_goals m))"
    by (simp add: sorted_goals_def)
  then have "\<forall>i j. i \<le> j \<longrightarrow> j < length (map (\<lambda>x. - snd x) (sorted_goals m)) \<longrightarrow>
      map (\<lambda>x. - snd x) (sorted_goals m) ! i \<le> map (\<lambda>x. - snd x) (sorted_goals m) ! j"
    by (simp only: sorted_iff_nth_mono)
  with assms have "map (\<lambda>x. - snd x) (sorted_goals m) ! i \<le> map (\<lambda>x. - snd x) (sorted_goals m) ! j"
    by simp
  with assms show ?thesis by simp
qed

lemma section4_nth:
  "i < length (sorted_goals m) \<Longrightarrow>
     section4 m t ! i =
       (fst (sorted_goals m ! i), snd (sorted_goals m ! i), percent_of (snd (sorted_goals m ! i)) t)"
  by (simp add: section4_def split_beta)

text \<open>
  Claim C9. The lines of the breakdown-by-percent section list the goals of the goal map by
  descending visitor count: of two lines with different counts the one with the larger count
  comes first. The lines are the entries of the map, each once, with its percentage of the
  total. The map A: 30, B: 50, C: 20 with total 100 gives B (50), A (30), C (20), the
  percentages being 50, 30 and 20.
\<close>

theorem breakdown_by_percent_descending:
  "(\<forall>i j. i < length (section4 m t) \<and> j < length (section4 m t) \<and>
          fst (snd (section4 m t ! j)) < fst (snd (section4 m t ! i)) \<longrightarrow> i < j) \<and>
   length (section4 m t) = length m \<and>
   set (map (\<lambda>l. (fst l, fst (snd l))) (section4 m t)) = set m \<and>
   (\<forall>l\<in>set (section4 m t). snd (snd l) = percent_of (fst (snd l)) t) \<and>
   section4 [(''A'', 30), (''B'', 50), (''C'', 20)] 100 =
     [(''B'', 50, 50), (''A'', 30, 30), (''C'', 20, 20)]"
proof (intro conjI allI impI)
  fix i j
  assume a: "i < length (section4 m t) \<and> j < length (section4 m t) \<and>
          fst (snd (section4 m t ! j)) < fst (snd (section4 m t ! i))"
  then have li: "i < length (sorted_goals m)" and lj: "j < length (sorted_goals m)"
    by (simp_all add: section4_def)
  from a have lt: "snd (sorted_goals m ! j) < snd (sorted_goals m ! i)"
    by (simp add: section4_nth li lj)
  show "i < j"
  proof (rule ccontr)
    assume "\<not> i < j"
    then have "j \<le> i" by simp
    from sorted_goals_descending [OF this li] lt show False by simp
  qed
next
  show "length (section4 m t) = length m" by (simp add: section4_def sorted_goals_def)
next
  have "map (\<lambda>l. (fst l, fst (snd l))) (section4 m t) = sorted_goals m"
    by (simp add: section4_def split_beta o_def)
  then show "set (map (\<lambda>l. (fst l, fst (snd l))) (section4 m t)) = set m"
    by (simp add: sorted_goals_def)
next
  show "\<forall>l\<in>set (section4 m t). snd (snd l) = percent_of (fst (snd l)) t"
    by (auto simp: section4_def)
next
  show "section4 [(''A'', 30), (''B'', 50), (''C'', 20)] 100 =
     [(''B'', 50, 50), (''A'', 30, 30), (''C'', 20, 20)]"
    by (simp add: section4_def sorted_goals_def percent_of_def)
qed

theorem breakdown_by_percent_descending_witness:
  "section4 [(''A'', 30), (''B'', 50), (''C'', 20)] 100 ! 0 = (''B'', 50, 50) \<and>
   section4 [(''A'', 30), (''B'', 50), (''C'', 20)] 100 ! 1 = (''A'', 30, 30) \<and>
   (0::nat) < 1"
proof -
  let ?m = "[(''A'', 30), (''B'', 50), (''C'', 20)] :: (string \<times> int) list"
  have ex: "section4 ?m 100 = [(''B'', 50, 50), (''A'', 30, 30), (''C'', 20, 20)]"
    using breakdown_by_percent_descending [of ?m 100] by blast
  have "0 < length (section4 ?m 100) \<and> 1 < length (section4 ?m 100) \<and>
          fst (snd (section4 ?m 100 ! 1)) < fst (snd (section4 ?m 100 ! 0))"
    by (simp add: ex)
  with breakdown_by_percent_descending [of ?m 100] have "(0::nat) < 1" by blast
  with ex show ?thesis by simp
qed


subsection \<open>Dates: order, successor and predecessor\<close>

lemma days_in_month_pos: "Suc 0 \<le> days_in_month y m"
  by (simp add: days_in_month_def)

lemma days_in_month_le_31: "days_in_month y m \<le> 31"
  by (simp add: days_in_month_def)

lemma days_in_month_12: "days_in_month y 12 = 31"
  by (simp add: days_in_month_def)

lemma next_day_valid: "valid_date d \<Longrightarrow> next_day d = Inr d' \<Longrightarrow> valid_date d'"
  by (auto simp: valid_date_def next_day_def days_in_month_pos split: if_splits)

lemma next_day_less: "next_day d = Inr d' \<Longrightarrow> date_less d d'"
  by (auto simp: next_day_def date_less_def split: if_splits)

lemma date_less_irrefl: "\<not> date_less d d"
  by (simp add: date_less_def)

lemma date_less_trans: "date_less a b \<Longrightarrow> date_less b c \<Longrightarrow> date_less a c"
  by (auto simp: date_less_def)

lemma date_less_asym: "date_less a b \<Longrightarrow> \<not> date_less b a"
  by (auto simp: date_less_def)

lemma date_le_less_trans: "date_le a b \<Longrightarrow> date_less b c \<Longrightarrow> date_less a c"
  by (auto simp: date_le_def dest: date_less_trans)

lemma date_le_trans: "date_le a b \<Longrightarrow> date_le b c \<Longrightarrow> date_le a c"
  by (auto simp: date_le_def dest: date_less_trans)

lemma date_less_not_le: "date_less a b \<Longrightarrow> \<not> date_le b a"
  by (auto simp: date_le_def date_less_irrefl dest: date_less_asym)

lemma next_day_discrete:
  "valid_date e \<Longrightarrow> next_day c = Inr n \<Longrightarrow> date_less c e \<Longrightarrow> date_le n e"
  apply (cases c, cases e)
  apply (auto simp: valid_date_def next_day_def date_less_def date_le_def split: if_splits)
  done

lemma next_day_overflow:
  "valid_date d \<Longrightarrow> next_day d = Inl x \<Longrightarrow> d = \<lparr>year = 9999, month = 12, day = 31\<rparr>"
  by (cases d)
     (auto simp: valid_date_def next_day_def days_in_month_12 MAXYEAR_def split: if_splits)

lemma date_less_max:
  assumes "valid_date e"
  shows "\<not> date_less \<lparr>year = 9999, month = 12, day = 31\<rparr> e"
proof -
  have "day e \<le> 31" using assms days_in_month_le_31 [of "year e" "month e"]
    by (simp add: valid_date_def)
  with assms show ?thesis by (auto simp: valid_date_def date_less_def MAXYEAR_def)
qed


lemma next_day_defined:
  assumes "valid_date c" "valid_date e" "date_less c e"
  shows "\<exists>n. next_day c = Inr n"
proof (cases "next_day c")
  case (Inl x)
  from next_day_overflow [OF assms(1) Inl] assms(3) date_less_max [OF assms(2)]
  show ?thesis by simp
next
  case (Inr n)
  then show ?thesis by blast
qed

lemma prev_next_day: "valid_date d \<Longrightarrow> next_day d = Inr n \<Longrightarrow> prev_day n = Inr d"
  by (cases d)
     (auto simp: valid_date_def next_day_def prev_day_def days_in_month_12 split: if_splits)

lemma next_prev_day: "valid_date d \<Longrightarrow> prev_day d = Inr p \<Longrightarrow> next_day p = Inr d"
  by (cases d)
     (auto simp: valid_date_def next_day_def prev_day_def days_in_month_12 MAXYEAR_def
           split: if_splits)

lemma prev_day_valid: "valid_date d \<Longrightarrow> prev_day d = Inr p \<Longrightarrow> valid_date p"
  by (cases d)
     (auto simp: valid_date_def prev_day_def days_in_month_12 days_in_month_pos MAXYEAR_def
           split: if_splits)

lemma add_one_month_valid: "add_one_month c = Inr n \<Longrightarrow> valid_date n"
  by (auto simp: add_one_month_def mk_date_def valid_date_def Let_def
           split: if_splits sum.splits)

lemma add_one_month_less: "add_one_month c = Inr n \<Longrightarrow> date_less c n"
  by (auto simp: add_one_month_def mk_date_def date_less_def Let_def
           split: if_splits sum.splits)

lemma date_trichotomy: "date_less a b \<or> a = b \<or> date_less b a"
  by (cases a, cases b) (auto simp: date_less_def)

lemma prev_day_defined:
  assumes "valid_date c" "valid_date n" "date_less c n"
  shows "\<exists>p. prev_day n = Inr p"
proof (cases "prev_day n")
  case (Inl x)
  then have "year n \<le> 1" "month n \<le> 1" "day n \<le> 1"
    by (auto simp: prev_day_def split: if_splits)
  with assms show ?thesis by (auto simp: valid_date_def date_less_def)
next
  case (Inr p)
  then show ?thesis by blast
qed

lemma date_le_prev_day:
  assumes "valid_date c" "valid_date n" "date_less c n" "prev_day n = Inr p"
  shows "date_le c p"
proof (rule ccontr)
  assume "\<not> date_le c p"
  with date_trichotomy [of c p] have "date_less p c" by (auto simp: date_le_def)
  from next_day_discrete [OF assms(1) next_prev_day [OF assms(2,4)] this]
  have "date_le n c" .
  with assms(3) show False by (auto dest: date_less_not_le)
qed

subsection \<open>Ordinals and weekdays\<close>

lemma mod_400_100: "(n::nat) mod 400 = 0 \<Longrightarrow> n mod 100 = 0"
proof -
  assume "n mod 400 = 0"
  then have "400 dvd n" by (simp add: mod_eq_0_iff_dvd)
  moreover have "(100::nat) dvd 400" by simp
  ultimately have "100 dvd n" by (rule dvd_trans [rotated])
  then show ?thesis by (simp add: mod_eq_0_iff_dvd)
qed

lemma mod_100_4: "(n::nat) mod 100 = 0 \<Longrightarrow> n mod 4 = 0"
proof -
  assume "n mod 100 = 0"
  then have "100 dvd n" by (simp add: mod_eq_0_iff_dvd)
  moreover have "(4::nat) dvd 100" by simp
  ultimately have "4 dvd n" by (rule dvd_trans [rotated])
  then show ?thesis by (simp add: mod_eq_0_iff_dvd)
qed

lemma upt_1_12: "[Suc 0..<12] = [1, 2, 3, 4, 5, 6, 7, 8, 9, 10, 11 :: nat]"
  by code_simp

lemma days_before_month_12:
  "days_before_month y 12 = (if is_leap y then 335 else 334)"
  by (simp add: days_before_month_def upt_1_12 days_in_month_def)

lemma days_before_month_Suc:
  "1 \<le> m \<Longrightarrow> days_before_month y (Suc m) = days_before_month y m + days_in_month y m"
  by (simp add: days_before_month_def)

lemma days_before_month_1: "days_before_month y (Suc 0) = 0"
  by (simp add: days_before_month_def)


lemma days_before_year_Suc:
  assumes "1 \<le> y"
  shows "days_before_year (Suc y) = days_before_year y + days_before_month y 12 + 31"
proof -
  obtain x where y: "y = Suc x" using assms by (cases y) auto
  have le: "x div 100 \<le> x div 4" by (rule div_le_mono2) simp_all
  have m1: "Suc x mod 400 = 0 \<Longrightarrow> Suc x mod 100 = 0" by (rule mod_400_100)
  have m2: "Suc x mod 100 = 0 \<Longrightarrow> Suc x mod 4 = 0" by (rule mod_100_4)
  show ?thesis
    unfolding y days_before_year_def days_before_month_12 is_leap_def
    using le m1 m2 by (auto simp: div_Suc) linarith+
qed


lemma toordinal_next_day:
  assumes v: "valid_date d" and n: "next_day d = Inr d'"
  shows "toordinal d' = toordinal d + 1"
proof -
  consider (a) "day d < days_in_month (year d) (month d)"
    | (b) "\<not> day d < days_in_month (year d) (month d)" "month d < 12"
    | (c) "\<not> day d < days_in_month (year d) (month d)" "\<not> month d < 12"
    by blast
  then show ?thesis
  proof cases
    case a
    with n have "d' = d\<lparr>day := day d + 1\<rparr>" by (simp add: next_day_def)
    then show ?thesis by (simp add: toordinal_def)
  next
    case b
    with n have d': "d' = \<lparr>year = year d, month = month d + 1, day = 1\<rparr>"
      by (simp add: next_day_def)
    from b v have "day d = days_in_month (year d) (month d)" "1 \<le> month d"
      by (simp_all add: valid_date_def)
    then show ?thesis by (simp add: d' toordinal_def days_before_month_Suc)
  next
    case c
    with n have d': "d' = \<lparr>year = year d + 1, month = 1, day = 1\<rparr>"
      by (auto simp: next_day_def split: if_splits)
    from c v have m: "month d = 12" and "day d = days_in_month (year d) (month d)"
      and y: "1 \<le> year d"
      by (simp_all add: valid_date_def)
    then have dd: "day d = 31" by (simp add: days_in_month_12)
    show ?thesis
      using days_before_year_Suc [OF y]
      by (simp add: d' toordinal_def m dd days_before_month_1)
  qed
qed

lemma add_days_toordinal:
  "valid_date d \<Longrightarrow> add_days k d = Inr d' \<Longrightarrow> toordinal d' = toordinal d + k \<and> valid_date d'"
proof (induction k arbitrary: d)
  case 0
  then show ?case by simp
next
  case (Suc k)
  from Suc.prems(2) obtain d1 where d1: "next_day d = Inr d1" and r: "add_days k d1 = Inr d'"
    by (auto split: sum.splits)
  from Suc.IH [OF next_day_valid [OF Suc.prems(1) d1] r]
    toordinal_next_day [OF Suc.prems(1) d1]
  show ?case by simp
qed

lemma add_days_add:
  "add_days (a + b) d = (case add_days a d of Inl x \<Rightarrow> Inl x | Inr d1 \<Rightarrow> add_days b d1)"
  by (induction a arbitrary: d) (auto split: sum.splits)

lemma add_days_le: "add_days k d = Inr d' \<Longrightarrow> date_le d d'"
proof (induction k arbitrary: d)
  case 0
  then show ?case by (simp add: date_le_def)
next
  case (Suc k)
  from Suc.prems obtain d1 where d1: "next_day d = Inr d1" and r: "add_days k d1 = Inr d'"
    by (auto split: sum.splits)
  from next_day_less [OF d1] Suc.IH [OF r] show ?case
    by (auto simp: date_le_def dest: date_less_trans)
qed

lemma add_days_reach:
  "valid_date c \<Longrightarrow> valid_date e \<Longrightarrow> date_le c e \<Longrightarrow> \<exists>k. add_days k c = Inr e"
proof (induction "day_index c" arbitrary: c rule: less_induct)
  case less
  show ?case
  proof (cases "c = e")
    case True
    then have "add_days 0 c = Inr e" by simp
    then show ?thesis by blast
  next
    case False
    with less.prems have lt: "date_less c e" by (simp add: date_le_def)
    from next_day_defined [OF less.prems(1,2) lt] obtain n where n: "next_day c = Inr n"
      by blast
    from less.hyps [OF next_day_index [OF n] next_day_valid [OF less.prems(1) n] less.prems(2)
           next_day_discrete [OF less.prems(2) n lt]]
    obtain k where "add_days k n = Inr e" by blast
    with n have "add_days (Suc k) c = Inr e" by simp
    then show ?thesis by blast
  qed
qed

lemma add_days_1: "add_days (Suc 0) d = next_day d"
  by (simp split: sum.splits)

lemma add_days_7:
  "add_days 7 c = (case add_days 6 c of Inl x \<Rightarrow> Inl x | Inr d1 \<Rightarrow> next_day d1)"
proof -
  have "add_days 7 c = add_days (6 + Suc 0) c" by simp
  also have "\<dots> = (case add_days 6 c of Inl x \<Rightarrow> Inl x | Inr d1 \<Rightarrow> add_days (Suc 0) d1)"
    by (rule add_days_add)
  finally show ?thesis by (simp only: add_days_1)
qed

subsection \<open>The interval list is a partition\<close>

lemma tiles_Cons:
  "L \<noteq> [] \<Longrightarrow>
     tiles s e ((a, b) # L) = (a = s \<and> date_le a b \<and> (\<exists>n. next_day b = Inr n \<and> tiles n e L))"
  by (cases L) (auto split: sum.splits)

lemma tiles_nonempty: "tiles s e L \<Longrightarrow> L \<noteq> []"
  by (cases L) auto

lemma tiles_explicit:
  "tiles s e L \<Longrightarrow>
     L \<noteq> [] \<and> fst (hd L) = s \<and> snd (last L) = e \<and>
     (\<forall>i. Suc i < length L \<longrightarrow> next_day (snd (L ! i)) = Inr (fst (L ! Suc i))) \<and>
     (\<forall>iv\<in>set L. date_le (fst iv) (snd iv))"
proof (induction s e L rule: tiles.induct)
  case (1 s e)
  then show ?case by simp
next
  case (2 s e a b)
  then show ?case by auto
next
  case (3 s e a b iv ivs)
  from "3.prems" obtain n where ab: "a = s" "date_le a b" and n: "next_day b = Inr n"
    and t: "tiles n e (iv # ivs)"
    by (auto split: sum.splits)
  from "3.IH" [OF n t] have hd: "fst iv = n" and lst: "snd (last (iv # ivs)) = e"
    and ch: "\<forall>i. Suc i < length (iv # ivs) \<longrightarrow>
               next_day (snd ((iv # ivs) ! i)) = Inr (fst ((iv # ivs) ! Suc i))"
    and le: "\<forall>x\<in>set (iv # ivs). date_le (fst x) (snd x)"
    by auto
  have "\<forall>i. Suc i < length ((a, b) # iv # ivs) \<longrightarrow>
          next_day (snd (((a, b) # iv # ivs) ! i)) = Inr (fst (((a, b) # iv # ivs) ! Suc i))"
  proof (intro allI impI)
    fix i assume i: "Suc i < length ((a, b) # iv # ivs)"
    show "next_day (snd (((a, b) # iv # ivs) ! i)) = Inr (fst (((a, b) # iv # ivs) ! Suc i))"
    proof (cases i)
      case 0
      then show ?thesis using n hd by simp
    next
      case (Suc k)
      with i ch show ?thesis by simp
    qed
  qed
  with ab lst le show ?case by simp
qed

lemma day_loop3_tiles:
  "valid_date c \<Longrightarrow> valid_date e \<Longrightarrow> next_day e = Inr e1 \<Longrightarrow> date_le c e \<Longrightarrow>
     \<exists>L. day_loop3 c e acc = Inr (acc @ L) \<and> tiles c e L"
proof (induction c e acc rule: day_loop3.induct)
  case (1 current end_date intervals)
  have "\<exists>n. next_day current = Inr n"
  proof (cases "current = end_date")
    case True
    with "1.prems" show ?thesis by simp
  next
    case False
    with "1.prems" have "date_less current end_date" by (simp add: date_le_def)
    with "1.prems" show ?thesis by (auto intro: next_day_defined)
  qed
  then obtain n where n: "next_day current = Inr n" by blast
  have vn: "valid_date n" using "1.prems"(1) n by (rule next_day_valid)
  have unf: "day_loop3 current end_date intervals =
               day_loop3 n end_date (intervals @ [(current, current)])"
    using "1.prems"(4) n by (subst day_loop3.simps) simp
  show ?case
  proof (cases "date_le n end_date")
    case True
    from "1.IH" [OF "1.prems"(4) n vn "1.prems"(2) "1.prems"(3) True]
    obtain L where L: "day_loop3 n end_date (intervals @ [(current, current)]) =
                         Inr ((intervals @ [(current, current)]) @ L)"
      and t: "tiles n end_date L" by blast
    from t have "L \<noteq> []" by (rule tiles_nonempty)
    then have "tiles current end_date ((current, current) # L)"
      using t n by (simp add: tiles_Cons date_le_def)
    with L unf show ?thesis by auto
  next
    case False
    have ce: "current = end_date"
    proof (rule ccontr)
      assume "current \<noteq> end_date"
      with "1.prems"(4) have "date_less current end_date" by (simp add: date_le_def)
      from next_day_discrete [OF "1.prems"(2) n this] False show False by simp
    qed
    have "day_loop3 n end_date (intervals @ [(current, current)]) =
            Inr (intervals @ [(current, current)])"
      using False by (subst day_loop3.simps) simp
    with unf ce show ?thesis by (auto simp: date_le_def)
  qed
qed

lemma month_loop3_tiles:
  "valid_date c \<Longrightarrow> valid_date e \<Longrightarrow> date_le c e \<Longrightarrow>
   validate_month_loop c e = Inr v \<Longrightarrow> next_day e = Inr v \<Longrightarrow>
     \<exists>L. month_loop3 c e acc = Inr (acc @ L) \<and> tiles c e L"
proof (induction c e acc rule: month_loop3.induct)
  case (1 current end_date intervals)
  have lt: "date_less current end_date"
  proof (rule ccontr)
    assume nl: "\<not> date_less current end_date"
    then have "validate_month_loop current end_date = Inr current"
      by (subst validate_month_loop.simps) simp
    with "1.prems" nl have "next_day end_date = Inr end_date" by (simp add: date_le_def)
    from next_day_less [OF this] show False by (simp add: date_less_irrefl)
  qed
  from "1.prems"(4) lt obtain nm where nm: "add_one_month current = Inr nm"
    and vl: "validate_month_loop nm end_date = Inr v"
    by (subst (asm) validate_month_loop.simps) (auto split: sum.splits)
  have vnm: "valid_date nm" using nm by (rule add_one_month_valid)
  have cnm: "date_less current nm" using nm by (rule add_one_month_less)
  from prev_day_defined [OF "1.prems"(1) vnm cnm] obtain ie where ie: "prev_day nm = Inr ie"
    by blast
  have nie: "next_day ie = Inr nm" using vnm ie by (rule next_prev_day)
  have cie: "date_le current ie" using "1.prems"(1) vnm cnm ie by (rule date_le_prev_day)
  have unf: "month_loop3 current end_date intervals =
               month_loop3 nm end_date (intervals @ [(current, ie)])"
    using "1.prems"(3) nm ie by (subst month_loop3.simps) simp
  show ?case
  proof (cases "date_le nm end_date")
    case True
    from "1.IH" [OF "1.prems"(3) nm ie vnm "1.prems"(2) True vl "1.prems"(5)]
    obtain L where L: "month_loop3 nm end_date (intervals @ [(current, ie)]) =
                         Inr ((intervals @ [(current, ie)]) @ L)"
      and t: "tiles nm end_date L" by blast
    from t have "L \<noteq> []" by (rule tiles_nonempty)
    then have "tiles current end_date ((current, ie) # L)"
      using t nie cie by (simp add: tiles_Cons)
    with L unf show ?thesis by auto
  next
    case False
    then have "\<not> date_less nm end_date" by (simp add: date_le_def)
    then have "validate_month_loop nm end_date = Inr nm"
      by (subst validate_month_loop.simps) simp
    with vl have "v = nm" by simp
    with "1.prems"(5) have "next_day end_date = Inr nm" by simp
    from prev_next_day [OF "1.prems"(2) this] ie have iee: "ie = end_date" by simp
    have "month_loop3 nm end_date (intervals @ [(current, ie)]) =
            Inr (intervals @ [(current, ie)])"
      using False by (subst month_loop3.simps) simp
    with unf iee "1.prems"(3) show ?thesis by auto
  qed
qed

lemma week_loop3_tiles:
  "valid_date c \<Longrightarrow> add_days (7 * j + 6) c = Inr e \<Longrightarrow> next_day e = Inr e1 \<Longrightarrow>
     \<exists>L. week_loop3 c e acc = Inr (acc @ L) \<and> tiles c e L"
proof (induction j arbitrary: c acc)
  case 0
  from "0.prems"(2) have six: "add_days 6 c = Inr e" by simp
  with "0.prems"(3) have seven: "add_days 7 c = Inr e1" by (simp add: add_days_7)
  have ce: "date_le c e" using six by (rule add_days_le)
  have stop: "\<not> date_le e1 e"
    using next_day_less [OF "0.prems"(3)] by (rule date_less_not_le)
  have "week_loop3 c e acc = week_loop3 e1 e (acc @ [(c, e)])"
    using ce six seven by (subst week_loop3.simps) simp
  also have "\<dots> = Inr (acc @ [(c, e)])"
    using stop by (subst week_loop3.simps) simp
  finally show ?case using ce by auto
next
  case (Suc j)
  have "add_days (7 * Suc j + 6) c = add_days (7 + (7 * j + 6)) c" by simp
  also have "\<dots> = (case add_days 7 c of Inl x \<Rightarrow> Inl x | Inr d1 \<Rightarrow> add_days (7 * j + 6) d1)"
    by (rule add_days_add)
  finally obtain n where seven: "add_days 7 c = Inr n" and rest: "add_days (7 * j + 6) n = Inr e"
    using Suc.prems(2) by (auto split: sum.splits)
  from seven obtain ie where six: "add_days 6 c = Inr ie" and nie: "next_day ie = Inr n"
    by (auto simp: add_days_7 split: sum.splits)
  have vn: "valid_date n" using add_days_toordinal [OF Suc.prems(1) seven] by simp
  have ce: "date_le c e" using Suc.prems(2) by (rule add_days_le)
  have cie: "date_le c ie" using six by (rule add_days_le)
  from Suc.IH [OF vn rest Suc.prems(3)] obtain L where
    L: "week_loop3 n e (acc @ [(c, ie)]) = Inr ((acc @ [(c, ie)]) @ L)" and t: "tiles n e L"
    by blast
  have unf: "week_loop3 c e acc = week_loop3 n e (acc @ [(c, ie)])"
    using ce six seven by (subst week_loop3.simps) simp
  from t have "L \<noteq> []" by (rule tiles_nonempty)
  then have "tiles c e ((c, ie) # L)" using t nie cie by (simp add: tiles_Cons)
  with L unf show ?case by auto
qed

lemma week_aligned_span:
  assumes "valid_date s" "valid_date e" "date_le s e" "weekday s = 6" "weekday e = 5"
  shows "\<exists>j. add_days (7 * j + 6) s = Inr e"
proof -
  from add_days_reach [OF assms(1-3)] obtain k where k: "add_days k s = Inr e" by blast
  from add_days_toordinal [OF assms(1) k] have o: "toordinal e = toordinal s + k" by simp
  from assms(4,5) o have "k mod 7 = 6" unfolding weekday_def by presburger
  then have "k = 7 * (k div 7) + 6" by presburger
  with k show ?thesis by metis
qed

text \<open>
  Claim C2, as the code has it. For valid dates start \<open>\<le>\<close> end that pass
  validate_interval_alignment, with end before 9999-12-31, the interval list of section 3 is
  built without error and is a finite ordered partition of the range: it is not empty, its
  first interval starts at start, its last interval ends at end, each next interval starts
  exactly one day after the interval before it ends, and every interval starts no later than
  it ends.
\<close>

theorem partition_of_validated_range:
  assumes vs: "valid_date start_date" and ve: "valid_date end_date"
    and le: "date_le start_date end_date"
    and ok: "validate_interval_alignment interval start_date end_date = Inr ()"
    and nm: "end_date \<noteq> \<lparr>year = 9999, month = 12, day = 31\<rparr>"
  shows "\<exists>ivs. intervals_section3 interval start_date end_date = Inr ivs \<and>
           ivs \<noteq> [] \<and> fst (hd ivs) = start_date \<and> snd (last ivs) = end_date \<and>
           (\<forall>i. Suc i < length ivs \<longrightarrow> next_day (snd (ivs ! i)) = Inr (fst (ivs ! Suc i))) \<and>
           (\<forall>iv\<in>set ivs. date_le (fst iv) (snd iv))"
proof -
  from ve nm obtain e1 where e1: "next_day end_date = Inr e1"
    by (cases "next_day end_date") (auto dest: next_day_overflow)
  have "\<exists>ivs. intervals_section3 interval start_date end_date = Inr ivs \<and>
          tiles start_date end_date ivs"
  proof (cases interval)
    case Day
    from day_loop3_tiles [OF vs ve e1 le, of "[]"] Day show ?thesis
      by (simp add: intervals_section3_def)
  next
    case Week
    with ok have "weekday start_date = 6" "weekday end_date = 5"
      by (auto simp: validate_interval_alignment_def split: if_splits)
    from week_aligned_span [OF vs ve le this] obtain j where
      "add_days (7 * j + 6) start_date = Inr end_date" by blast
    from week_loop3_tiles [OF vs this e1, of "[]"] Week show ?thesis
      by (simp add: intervals_section3_def)
  next
    case Month
    with ok e1 have "validate_month_loop start_date end_date = Inr e1"
      by (auto simp: validate_interval_alignment_def split: sum.splits if_splits)
    from month_loop3_tiles [OF vs ve le this e1, of "[]"] Month show ?thesis
      by (simp add: intervals_section3_def)
  qed
  then obtain ivs where "intervals_section3 interval start_date end_date = Inr ivs"
    and "tiles start_date end_date ivs" by blast
  with tiles_explicit [of start_date end_date ivs] show ?thesis by blast
qed

theorem partition_of_validated_range_witness:
  "valid_date \<lparr>year = 2024, month = 1, day = 1\<rparr> \<and>
   valid_date \<lparr>year = 2024, month = 3, day = 31\<rparr> \<and>
   date_le \<lparr>year = 2024, month = 1, day = 1\<rparr> \<lparr>year = 2024, month = 3, day = 31\<rparr> \<and>
   validate_interval_alignment Month \<lparr>year = 2024, month = 1, day = 1\<rparr>
     \<lparr>year = 2024, month = 3, day = 31\<rparr> = Inr () \<and>
   (\<exists>ivs. intervals_section3 Month \<lparr>year = 2024, month = 1, day = 1\<rparr>
            \<lparr>year = 2024, month = 3, day = 31\<rparr> = Inr ivs \<and>
          length ivs = 3 \<and>
          fst (hd ivs) = \<lparr>year = 2024, month = 1, day = 1\<rparr> \<and>
          snd (last ivs) = \<lparr>year = 2024, month = 3, day = 31\<rparr>)"
proof -
  let ?s = "\<lparr>year = 2024, month = 1, day = 1\<rparr>"
  let ?e = "\<lparr>year = 2024, month = 3, day = 31\<rparr>"
  have vs: "valid_date ?s" by code_simp
  have ve: "valid_date ?e" by code_simp
  have le: "date_le ?s ?e" by code_simp
  have ok: "validate_interval_alignment Month ?s ?e = Inr ()" by code_simp
  have nm: "?e \<noteq> \<lparr>year = 9999, month = 12, day = 31\<rparr>" by simp
  have run: "intervals_section3 Month ?s ?e =
    Inr [(\<lparr>year = 2024, month = 1, day = 1\<rparr>, \<lparr>year = 2024, month = 1, day = 31\<rparr>),
         (\<lparr>year = 2024, month = 2, day = 1\<rparr>, \<lparr>year = 2024, month = 2, day = 29\<rparr>),
         (\<lparr>year = 2024, month = 3, day = 1\<rparr>, \<lparr>year = 2024, month = 3, day = 31\<rparr>)]"
    by code_simp
  from partition_of_validated_range [OF vs ve le ok nm] obtain ivs where
    i: "intervals_section3 Month ?s ?e = Inr ivs" and h: "fst (hd ivs) = ?s"
    and l: "snd (last ivs) = ?e"
    by blast
  from i run have "length ivs = 3" by simp
  with vs ve le ok i h l show ?thesis by blast
qed

text \<open>
  The claim as stated, for every validated range, fails on the last day the date type
  holds: with granularity day and end 9999-12-31 the validator accepts and the loop, which
  steps \<^verbatim>\<open>current\<close> one day past \<^verbatim>\<open>end_date\<close> before it tests again, raises
  \<^verbatim>\<open>OverflowError\<close>.
\<close>

theorem partition_last_day_counterexample:
  "valid_date \<lparr>year = 9999, month = 12, day = 31\<rparr> \<and>
   date_le \<lparr>year = 9999, month = 12, day = 31\<rparr> \<lparr>year = 9999, month = 12, day = 31\<rparr> \<and>
   validate_interval_alignment Day \<lparr>year = 9999, month = 12, day = 31\<rparr>
     \<lparr>year = 9999, month = 12, day = 31\<rparr> = Inr () \<and>
   intervals_section3 Day \<lparr>year = 9999, month = 12, day = 31\<rparr>
     \<lparr>year = 9999, month = 12, day = 31\<rparr> = Inl OverflowError"
  by code_simp

end
